theory Spec2Isabelle
  imports Main "HOL-Library.AList"
begin

section \<open>JavaScript values and object expressions\<close>

text \<open>
  The state helpers of the repository are untyped at run time: they spread objects, read
  properties of whatever they are given and build object literals. The embedding therefore
  works on a datatype of JavaScript values. An object is the list of its own enumerable
  string-keyed properties, in the order in which they were defined. A well-formed object has
  pairwise distinct keys; theorems that depend on it say \<open>distinct (map fst ps)\<close>.

  Outside the model: numbers other than integers (and the exponent notation in which
  \<open>String\<close> prints integers from \<open>10^21\<close> on), arrays as values (array arguments are HOL
  lists), the members every object inherits from \<open>Object.prototype\<close> (a read of an absent
  key yields \<open>undefined\<close>, which is what JavaScript does for every key that is not such a
  member), and the rule that puts integer-like keys first when an object is enumerated (no
  statement below depends on the order of keys).
\<close>

datatype jsval =
    JUndefined
  | JNull
  | JBool bool
  | JNum int
  | JStr string
  | JObj "(string \<times> jsval) list"

type_synonym props = "(string \<times> jsval) list"

text \<open>The only exception the helpers can raise: reading a property of \<open>undefined\<close> or \<open>null\<close>.\<close>

datatype error = TypeError

definition andThen :: "error + 'a \<Rightarrow> ('a \<Rightarrow> error + 'b) \<Rightarrow> error + 'b" where
  "andThen r f = (case r of Inl e \<Rightarrow> Inl e | Inr x \<Rightarrow> f x)"

fun nullish :: "jsval \<Rightarrow> bool" where
  "nullish JUndefined = True"
| "nullish JNull = True"
| "nullish _ = False"

fun truthy :: "jsval \<Rightarrow> bool" where
  "truthy JUndefined = False"
| "truthy JNull = False"
| "truthy (JBool b) = b"
| "truthy (JNum n) = (n \<noteq> 0)"
| "truthy (JStr s) = (s \<noteq> [])"
| "truthy (JObj ps) = True"

text \<open>\<open>a || b\<close> on values whose evaluation cannot raise.\<close>

definition jsOr :: "jsval \<Rightarrow> jsval \<Rightarrow> jsval" where
  "jsOr a b = (if truthy a then a else b)"

text \<open>Decimal digits of a natural number, for \<open>String(n)\<close> and for the index keys of a string.\<close>

function showNat :: "nat \<Rightarrow> string" where
  "showNat n =
     (if n < 10 then [''0123456789'' ! n]
      else showNat (n div 10) @ [''0123456789'' ! (n mod 10)])"
  by pat_completeness auto
termination
  by (relation "measure id") auto

definition showInt :: "int \<Rightarrow> string" where
  "showInt i = (if i < 0 then CHR ''-'' # showNat (nat (- i)) else showNat (nat i))"

text \<open>The global \<open>String(v)\<close>; a plain object prints as \<open>[object Object]\<close>.\<close>

fun String_of :: "jsval \<Rightarrow> string" where
  "String_of JUndefined = ''undefined''"
| "String_of JNull = ''null''"
| "String_of (JBool b) = (if b then ''true'' else ''false'')"
| "String_of (JNum n) = showInt n"
| "String_of (JStr s) = s"
| "String_of (JObj ps) = ''[object Object]''"

text \<open>
  The own enumerable properties that a spread \<open>...v\<close> copies and \<open>Object.keys(v)\<close> lists:
  those of an object, the characters of a string under their indices, nothing for
  \<open>undefined\<close>, \<open>null\<close>, booleans and numbers.
\<close>

fun ownProps :: "jsval \<Rightarrow> props" where
  "ownProps (JObj ps) = ps"
| "ownProps (JStr s) = zip (map showNat [0..<length s]) (map (\<lambda>c. JStr [c]) s)"
| "ownProps _ = []"

definition objectKeys :: "jsval \<Rightarrow> string list" where
  "objectKeys v = map fst (ownProps v)"

text \<open>
  A property read \<open>v[k]\<close> of a value that is neither \<open>undefined\<close> nor \<open>null\<close>; the
  plain read \<open>v[k]\<close>, which raises on those two; and the optional read \<open>v?.[k]\<close>, which
  yields \<open>undefined\<close> on them.
\<close>

fun readProp :: "jsval \<Rightarrow> string \<Rightarrow> jsval" where
  "readProp (JObj ps) k = (case map_of ps k of Some v \<Rightarrow> v | None \<Rightarrow> JUndefined)"
| "readProp (JStr s) k =
     (if k = ''length'' then JNum (int (length s))
      else case map_of (ownProps (JStr s)) k of Some v \<Rightarrow> v | None \<Rightarrow> JUndefined)"
| "readProp _ k = JUndefined"

definition getProp :: "jsval \<Rightarrow> string \<Rightarrow> error + jsval" where
  "getProp v k = (if nullish v then Inl TypeError else Inr (readProp v k))"

definition optProp :: "jsval \<Rightarrow> string \<Rightarrow> jsval" where
  "optProp v k = (if nullish v then JUndefined else readProp v k)"

text \<open>
  An object literal is a sequence of parts, evaluated left to right: a spread \<open>...v\<close> or a
  property \<open>k: v\<close> (also the computed \<open>[k]: v\<close>). A later part overrides an earlier one
  with the same key, in the earlier one's position.
\<close>

datatype part = Spread jsval | Prop string jsval

fun addPart :: "props \<Rightarrow> part \<Rightarrow> props" where
  "addPart acc (Spread v) = foldl (\<lambda>a (k, x). AList.update k x a) acc (ownProps v)"
| "addPart acc (Prop k v) = AList.update k v acc"

definition objLit :: "part list \<Rightarrow> jsval" where
  "objLit parts = JObj (foldl addPart [] parts)"

text \<open>\<open>xs.reduce(f, init)\<close> for a callback that may raise.\<close>

fun reduce :: "('b \<Rightarrow> 'a \<Rightarrow> error + 'b) \<Rightarrow> 'b \<Rightarrow> 'a list \<Rightarrow> error + 'b" where
  "reduce f acc [] = Inr acc"
| "reduce f acc (x # xs) = (case f acc x of Inl e \<Rightarrow> Inl e | Inr acc' \<Rightarrow> reduce f acc' xs)"

section \<open>Entity context collection helpers (utils/rx/state)\<close>

text \<open>
  \<^verbatim>\<open>setEntityLoading = (state, entityId) => ({ ...state, value: { ...state.value,
     [entityId]: { ...state.value[entityId], loading: true, error: false } } })\<close>
\<close>

definition setEntityLoading :: "jsval \<Rightarrow> string \<Rightarrow> error + jsval" where
  "setEntityLoading state entityId =
     andThen (getProp state ''value'') (\<lambda>sv.
     andThen (getProp sv entityId) (\<lambda>entry.
       Inr (objLit [Spread state,
              Prop ''value'' (objLit [Spread sv,
                Prop entityId (objLit [Spread entry,
                  Prop ''loading'' (JBool True),
                  Prop ''error'' (JBool False)])])])))"

text \<open>
  \<^verbatim>\<open>updateEntity = (state, entityId, update) => ({ ...state, value: { ...state.value,
     [entityId]: { ...state.value[entityId],
        value: { ...state.value[entityId].value, ...update } } } })\<close>
\<close>

definition updateEntity :: "jsval \<Rightarrow> string \<Rightarrow> jsval \<Rightarrow> error + jsval" where
  "updateEntity state entityId update =
     andThen (getProp state ''value'') (\<lambda>sv.
     andThen (getProp sv entityId) (\<lambda>entry.
     andThen (getProp entry ''value'') (\<lambda>ev.
       Inr (objLit [Spread state,
              Prop ''value'' (objLit [Spread sv,
                Prop entityId (objLit [Spread entry,
                  Prop ''value'' (objLit [Spread ev, Spread update])])])]))))"

text \<open>
  \<^verbatim>\<open>removeEntity = (state, entityId) => {
     const { [entityId]: removed, ...remaining } = state.value;
     return { ...state, value: remaining }; }\<close>
  Destructuring \<open>undefined\<close> or \<open>null\<close> raises a TypeError.
\<close>

definition removeEntity :: "jsval \<Rightarrow> string \<Rightarrow> error + jsval" where
  "removeEntity state entityId =
     andThen (getProp state ''value'') (\<lambda>sv.
       if nullish sv then Inl TypeError
       else Inr (objLit [Spread state,
                   Prop ''value'' (JObj (AList.delete entityId (ownProps sv)))]))"

text \<open>
  \<^verbatim>\<open>updateCollection = (entities, idKey = 'id') => entities.reduce(
     (acc, entity) => ({ ...acc,
        [String(entity[idKey])]: { value: entity, loading: false, error: false } }), {})\<close>
\<close>

definition updateCollection :: "jsval list \<Rightarrow> string \<Rightarrow> error + jsval" where
  "updateCollection entities idKey =
     reduce (\<lambda>acc entity.
        andThen (getProp entity idKey) (\<lambda>idv.
          Inr (objLit [Spread acc,
                 Prop (String_of idv) (objLit [Prop ''value'' entity,
                   Prop ''loading'' (JBool False),
                   Prop ''error'' (JBool False)])])))
       (objLit []) entities"

text \<open>
  \<^verbatim>\<open>mergeContextState = (currentState, update) =>
     ({ ...currentState, ...update, value: update.value ?? currentState.value })\<close>
\<close>

definition mergeContextState :: "jsval \<Rightarrow> jsval \<Rightarrow> error + jsval" where
  "mergeContextState currentState update =
     andThen (getProp update ''value'') (\<lambda>uv.
     andThen (if nullish uv then getProp currentState ''value'' else Inr uv) (\<lambda>v.
       Inr (objLit [Spread currentState, Spread update, Prop ''value'' v])))"

text \<open>
  \<^verbatim>\<open>mergeCollectionState = (state, update) => {
     const baseState = { ...state, ...update };
     if (!update.value) { return baseState; }
     return { ...baseState, value: { ...state.value,
        ...Object.keys(update.value).reduce((acc, key) => ({ ...acc,
           [key]: { ...state.value?.[key], ...update.value![key],
              value: { ...(state.value?.[key]?.value || {}),
                       ...(update.value![key]?.value || {}) } } }), {}) } }; }\<close>
  The reads of \<open>update.value\<close> inside the callback cannot raise: \<open>update\<close> has been read
  before and \<open>update.value\<close> is truthy there.
\<close>

definition mergeCollectionState :: "jsval \<Rightarrow> jsval \<Rightarrow> error + jsval" where
  "mergeCollectionState state update =
     (let baseState = objLit [Spread state, Spread update] in
      andThen (getProp update ''value'') (\<lambda>uv.
        if \<not> truthy uv then Inr baseState
        else
          andThen (getProp state ''value'') (\<lambda>sv.
          andThen (reduce (\<lambda>acc key.
                     andThen (getProp state ''value'') (\<lambda>sv'.
                       Inr (objLit [Spread acc,
                              Prop key (objLit [Spread (optProp sv' key),
                                Spread (readProp uv key),
                                Prop ''value'' (objLit
                                  [Spread (jsOr (optProp (optProp sv' key) ''value'') (objLit [])),
                                   Spread (jsOr (optProp (readProp uv key) ''value'') (objLit []))])])])))
                    (objLit []) (objectKeys uv)) (\<lambda>merged.
            Inr (objLit [Spread baseState,
                   Prop ''value'' (objLit [Spread sv, Spread merged])])))))"

text \<open>\<^verbatim>\<open>createInitialContext = () => ({ value: {}, loading: false })\<close>\<close>

definition createInitialContext :: jsval where
  "createInitialContext = objLit [Prop ''value'' (objLit []), Prop ''loading'' (JBool False)]"

text \<open>
  Modelled from the spec: \<open>patch\<close> is imported from the library
  \<open>@rx-angular/cdk/transformations\<close> and is not part of the sources. Section 4.1 describes
  the merge it performs as a shallow key-wise union in which every field present in the
  partial overrides the old one, that is \<^verbatim>\<open>{ ...object, ...upd }\<close>.
\<close>

definition patch :: "jsval \<Rightarrow> jsval \<Rightarrow> jsval" where
  "patch object upd = objLit [Spread object, Spread upd]"

text \<open>
  \<^verbatim>\<open>function mergeEntityContext(oldState, newPartial) {
     const resultState = patch(oldState || createInitialContext(), newPartial);
     resultState.value = patch(oldState?.value || {}, resultState?.value || {});
     return resultState; }\<close>
  \<open>resultState\<close> is the fresh object \<open>patch\<close> has built, so the assignment to its
  \<open>value\<close> is written as the literal \<^verbatim>\<open>{ ...resultState, value: ... }\<close>.
\<close>

definition mergeEntityContext :: "jsval \<Rightarrow> jsval \<Rightarrow> jsval" where
  "mergeEntityContext oldState newPartial =
     (let resultState = patch (jsOr oldState createInitialContext) newPartial in
      objLit [Spread resultState,
        Prop ''value'' (patch (jsOr (optProp oldState ''value'') (objLit []))
                              (jsOr (optProp resultState ''value'') (objLit [])))])"

text \<open>
  \<^verbatim>\<open>withContextError = (error, id?) => ({
     value: id ? { [id]: { value: null, loading: false, error: error.message } } : {},
     loading: false,
     error: error.message || 'An error occurred' })\<close>
  The optional \<open>id\<close> (here \<open>ident\<close>) is \<open>None\<close> when the argument is omitted; the empty
  string is falsy.
\<close>

definition withContextError :: "jsval \<Rightarrow> string option \<Rightarrow> error + jsval" where
  "withContextError err ident =
     andThen (getProp err ''message'') (\<lambda>msg.
       Inr (objLit
         [Prop ''value''
            (case ident of
               None \<Rightarrow> objLit []
             | Some i \<Rightarrow>
                 if i = [] then objLit []
                 else objLit [Prop i (objLit [Prop ''value'' JNull,
                        Prop ''loading'' (JBool False), Prop ''error'' msg])]),
          Prop ''loading'' (JBool False),
          Prop ''error'' (jsOr msg (JStr ''An error occurred''))]))"

text \<open>
  The projection that \<open>GlobalTodosState\<close> registers with \<open>connect('todos', ...)\<close> for the
  fetch-all stream (state/todos.state.ts); its result becomes the new \<open>todos\<close> slice.
  \<^verbatim>\<open>(state, newPartial) => ({ ...state,
     value: mergeEntityContext(state.todos, newPartial).value,
     loading: newPartial.loading, error: newPartial.error })\<close>
\<close>

definition fetchTodosProject :: "jsval \<Rightarrow> jsval \<Rightarrow> error + jsval" where
  "fetchTodosProject state newPartial =
     andThen (getProp state ''todos'') (\<lambda>todos.
     andThen (getProp (mergeEntityContext todos newPartial) ''value'') (\<lambda>v.
     andThen (getProp newPartial ''loading'') (\<lambda>l.
     andThen (getProp newPartial ''error'') (\<lambda>e.
       Inr (objLit [Spread state, Prop ''value'' v, Prop ''loading'' l, Prop ''error'' e])))))"

text \<open>
  \<^verbatim>\<open>selectEntity(id) = map(state => state?.value?.[id]?.value)\<close>, the function applied to
  each emitted state.
\<close>

definition selectEntity :: "string \<Rightarrow> jsval \<Rightarrow> jsval" where
  "selectEntity ident state = optProp (optProp (optProp state ''value'') ident) ''value''"

section \<open>Observables and the loading-emission wrapper\<close>

text \<open>
  A cold observable is represented by what one subscription to it observes: the values it
  delivers, in order, and how it ends. \<open>Open\<close> is a subscription that has neither
  completed nor failed.
\<close>

datatype ending = Completed | Failed jsval | Open

datatype observable = Observable "jsval list" ending

fun delivered :: "observable \<Rightarrow> jsval list" where
  "delivered (Observable xs e) = xs"

text \<open>
  Modelled from the spec: \<open>startWith\<close> and \<open>endWith\<close> are operators of the library
  \<open>rxjs\<close> and are not part of the sources. Section 4.3 describes what the wrapper built from
  them does: it emits the start marker immediately upon subscription, forwards every value
  the underlying producer emits, and emits the end marker once the producer completes, as
  the terminal element before closing. So \<open>startWith(v)\<close> delivers \<open>v\<close> before the source's
  values and \<open>endWith(v)\<close> delivers \<open>v\<close> after them when the source completes.
\<close>

fun startWith :: "jsval \<Rightarrow> observable \<Rightarrow> observable" where
  "startWith v (Observable xs e) = Observable (v # xs) e"

fun endWith :: "jsval \<Rightarrow> observable \<Rightarrow> observable" where
  "endWith v (Observable xs Completed) = Observable (xs @ [v]) Completed"
| "endWith v (Observable xs e) = Observable xs e"

definition defaultLoadingProp :: string where
  "defaultLoadingProp = ''loading''"

text \<open>
  \<^verbatim>\<open>function withLoadingEmission(property?) {
     const _property = property ?? defaultLoadingProp;
     const start = { [_property]: true };
     const end = { [_property]: false };
     return (o$) => o$.pipe(startWith(start), endWith(end)); }\<close>
\<close>

definition withLoadingEmission :: "string option \<Rightarrow> observable \<Rightarrow> observable" where
  "withLoadingEmission property =
     (let property' = (case property of None \<Rightarrow> defaultLoadingProp | Some p \<Rightarrow> p);
          start = objLit [Prop property' (JBool True)];
          end' = objLit [Prop property' (JBool False)]
      in (\<lambda>o_S. endWith end' (startWith start o_S)))"

section \<open>The fetch-all stream of GlobalTodosState\<close>

text \<open>
  \<^verbatim>\<open>this.actions.fetchTodos$.pipe(
     exhaustMap(() => this.todoService.getTodos().pipe(...)))\<close>
  The state of this subscription: whether an inner request is subscribed and has not ended
  yet, and how often the list operation of the fetch interface has been called.
\<close>

record fetching =
  inFlight :: bool
  listCalls :: nat

text \<open>The two things that can happen to the stream: the action is dispatched (its subject
  emits), or the request in flight ends, by a response or by a failure.\<close>

datatype fetch_event = DispatchFetchTodos | RequestSettled

definition getTodos :: "fetching \<Rightarrow> fetching" where
  "getTodos s = s\<lparr>listCalls := Suc (listCalls s)\<rparr>"

text \<open>
  Modelled from the spec: \<open>exhaustMap\<close> is an operator of the library \<open>rxjs\<close> and is not
  part of the sources. Glossary: exhaust semantics is a policy where a new request is
  ignored while a prior one of the same kind is still pending; section 5: the overlapping
  dispatch is dropped, not queued, not cancelled. The projection is run, and its result
  subscribed, only for a source value that arrives while no inner subscription is open.
\<close>

definition exhaustMap :: "(fetching \<Rightarrow> fetching) \<Rightarrow> fetching \<Rightarrow> fetching" where
  "exhaustMap project s = (if inFlight s then s else project (s\<lparr>inFlight := True\<rparr>))"

fun fetchTodosStep :: "fetching \<Rightarrow> fetch_event \<Rightarrow> fetching" where
  "fetchTodosStep s DispatchFetchTodos = exhaustMap getTodos s"
| "fetchTodosStep s RequestSettled = s\<lparr>inFlight := False\<rparr>"

definition fetchTodosRun :: "fetch_event list \<Rightarrow> fetching" where
  "fetchTodosRun evs = foldl fetchTodosStep \<lparr>inFlight = False, listCalls = 0\<rparr> evs"

section \<open>The tracked action dispatcher (actions-with-tracking/proxy.ts)\<close>

text \<open>
  Per action, \<open>stateMap\<close> holds three subjects. The model records what each has been sent:
  \<open>loading_S\<close> is a \<open>BehaviorSubject(false)\<close>, so its record starts with \<open>False\<close>.
\<close>

record tracking =
  loading_S :: "bool list"
  complete_S :: "bool list"
  error_S :: "jsval list"

text \<open>
  An entry of \<open>subjectMap\<close>: the values the subject has emitted, whether the tracking
  pipeline of \<open>getEventEmitter\<close> is subscribed to it, and the value whose promise that
  pipeline is waiting for (its callback runs in a later microtask, after the dispatching call
  has returned).
\<close>

record subject =
  emitted :: "jsval list"
  tracked :: bool
  awaiting :: "jsval option"

record actions =
  stateMap :: "string \<Rightarrow> tracking option"
  subjectMap :: "string \<Rightarrow> subject option"
  handledErrors :: "jsval list"

text \<open>
  What the handler is constructed with. A payload transform either returns a value
  (\<open>Inr\<close>) or throws one (\<open>Inl\<close>); \<open>errorHandler\<close> says whether an error sink was passed
  (\<open>errorHandler = null\<close> otherwise).
\<close>

record config =
  transformsMap :: "string \<Rightarrow> (jsval \<Rightarrow> jsval + jsval) option"
  errorHandler :: bool

definition newActions :: actions where
  "newActions = \<lparr>stateMap = Map.empty, subjectMap = Map.empty, handledErrors = []\<rparr>"

text \<open>\<^verbatim>\<open>function getOrCreateState(prop) { if (!stateMap[prop]) { stateMap[prop] = {
     loading$: new BehaviorSubject(false), complete$: new Subject(), error$: new Subject() }; }
     return stateMap[prop]; }\<close>\<close>

definition getOrCreateState :: "string \<Rightarrow> actions \<Rightarrow> actions" where
  "getOrCreateState prop w =
     (case stateMap w prop of
        Some t \<Rightarrow> w
      | None \<Rightarrow> w\<lparr>stateMap := (stateMap w)(prop \<mapsto>
                    \<lparr>loading_S = [False], complete_S = [], error_S = []\<rparr>)\<rparr>)"

text \<open>\<open>state.loading$.next(b)\<close> and its siblings, on the action's entry of \<open>stateMap\<close>.\<close>

definition loadingNext :: "string \<Rightarrow> bool \<Rightarrow> actions \<Rightarrow> actions" where
  "loadingNext prop b w =
     w\<lparr>stateMap := (stateMap w)(prop :=
          map_option (\<lambda>t. t\<lparr>loading_S := loading_S t @ [b]\<rparr>) (stateMap w prop))\<rparr>"

definition completeNext :: "string \<Rightarrow> bool \<Rightarrow> actions \<Rightarrow> actions" where
  "completeNext prop b w =
     w\<lparr>stateMap := (stateMap w)(prop :=
          map_option (\<lambda>t. t\<lparr>complete_S := complete_S t @ [b]\<rparr>) (stateMap w prop))\<rparr>"

definition errorNext :: "string \<Rightarrow> jsval \<Rightarrow> actions \<Rightarrow> actions" where
  "errorNext prop v w =
     w\<lparr>stateMap := (stateMap w)(prop :=
          map_option (\<lambda>t. t\<lparr>error_S := error_S t @ [v]\<rparr>) (stateMap w prop))\<rparr>"

text \<open>\<open>errorHandler.handleError(err)\<close>, guarded by \<open>if (errorHandler)\<close> or \<open>?.\<close> at every
  call in the source.\<close>

definition handleError :: "config \<Rightarrow> jsval \<Rightarrow> actions \<Rightarrow> actions" where
  "handleError cfg err w =
     (if errorHandler cfg then w\<lparr>handledErrors := handledErrors w @ [err]\<rparr> else w)"

text \<open>
  \<^verbatim>\<open>const transformedValue = transformsMap && transformsMap[prop]
       ? transformsMap[prop](value) : value;\<close>
\<close>

definition applyTransform :: "config \<Rightarrow> string \<Rightarrow> jsval \<Rightarrow> jsval + jsval" where
  "applyTransform cfg prop v =
     (case transformsMap cfg prop of None \<Rightarrow> Inr v | Some f \<Rightarrow> f v)"

text \<open>
  The pipeline that \<open>getEventEmitter\<close> subscribes to a subject it creates, run for one
  emitted value up to the point where it waits for the promise:
  \<^verbatim>\<open>tap(() => state.loading$.next(true)),
  switchMap((value) => {
    try { const transformedValue = ...;
          return from(Promise.resolve(transformedValue)).pipe(tap({...})); }
    catch (err) { state.loading$.next(false); state.error$.next(err);
                  if (errorHandler) { errorHandler.handleError(err); }
                  return EMPTY; } })\<close>
\<close>

definition trackEmission :: "config \<Rightarrow> string \<Rightarrow> jsval \<Rightarrow> actions \<Rightarrow> actions" where
  "trackEmission cfg prop v w =
     (let w1 = loadingNext prop True w in
      case applyTransform cfg prop v of
        Inr tv \<Rightarrow>
          w1\<lparr>subjectMap := (subjectMap w1)(prop :=
                map_option (\<lambda>s. s\<lparr>awaiting := Some tv\<rparr>) (subjectMap w1 prop))\<rparr>
      | Inl err \<Rightarrow>
          handleError cfg err (errorNext prop err (loadingNext prop False
            (w1\<lparr>subjectMap := (subjectMap w1)(prop :=
                  map_option (\<lambda>s. s\<lparr>awaiting := None\<rparr>) (subjectMap w1 prop))\<rparr>))))"

text \<open>\<open>subjectMap[prop].next(val)\<close>: the subject emits, and the tracking pipeline runs if
  it is subscribed.\<close>

definition subjectNext :: "config \<Rightarrow> string \<Rightarrow> jsval \<Rightarrow> actions \<Rightarrow> actions" where
  "subjectNext cfg prop v w =
     (case subjectMap w prop of
        None \<Rightarrow> w
      | Some s \<Rightarrow>
          (let w1 = w\<lparr>subjectMap := (subjectMap w)(prop \<mapsto> s\<lparr>emitted := emitted s @ [v]\<rparr>)\<rparr>
           in if tracked s then trackEmission cfg prop v w1 else w1))"

text \<open>
  \<^verbatim>\<open>function getEventEmitter(prop) {
     if (!subjectMap[prop]) {
       const subject = new Subject(); subjectMap[prop] = subject;
       const state = getOrCreateState(prop);
       subject.pipe(...).subscribe(); }
     return subjectMap[prop]; }\<close>
\<close>

definition getEventEmitter :: "string \<Rightarrow> actions \<Rightarrow> actions" where
  "getEventEmitter prop w =
     (case subjectMap w prop of
        Some s \<Rightarrow> w
      | None \<Rightarrow>
          getOrCreateState prop
            (w\<lparr>subjectMap := (subjectMap w)(prop \<mapsto>
                 \<lparr>emitted = [], tracked = True, awaiting = None\<rparr>)\<rparr>))"

text \<open>
  \<^verbatim>\<open>function dispatch(value, prop) {
     subjectMap[prop] = subjectMap[prop] || new Subject();
     try { const val = transformsMap && transformsMap[prop]
                         ? transformsMap[prop](value) : value;
           subjectMap[prop].next(val); }
     catch (err) { errorHandler?.handleError(err); } }\<close>
  The first component of the result is the exception that leaves the function, if any;
  what the transform throws is caught in the body, so there is none.
\<close>

definition dispatch ::
    "config \<Rightarrow> jsval \<Rightarrow> string \<Rightarrow> actions \<Rightarrow> jsval option \<times> actions" where
  "dispatch cfg v prop w =
     (let w1 = (case subjectMap w prop of
                  Some s \<Rightarrow> w
                | None \<Rightarrow> w\<lparr>subjectMap := (subjectMap w)(prop \<mapsto>
                              \<lparr>emitted = [], tracked = False, awaiting = None\<rparr>)\<rparr>)
      in case applyTransform cfg prop v of
           Inr val \<Rightarrow> (None, subjectNext cfg prop val w1)
         | Inl err \<Rightarrow> (None, handleError cfg err w1))"

text \<open>\<open>typeof v === 'object'\<close>, which also holds of \<open>null\<close>.\<close>

fun typeofObject :: "jsval \<Rightarrow> bool" where
  "typeofObject (JObj ps) = True"
| "typeofObject JNull = True"
| "typeofObject _ = False"

text \<open>
  The function the proxy returns for an action name (a property name that does not end in
  \<open>$\<close> and does not start with \<open>on\<close>; those are answered earlier in \<open>get\<close>), called
  with \<open>args\<close>:
  \<^verbatim>\<open>(...args) => {
     const config = typeof args[args.length - 1] === 'object' ? args.pop() : {};
     const state = getOrCreateState(prop);
     if (!config.silent) { state.loading$.next(true); }
     state.complete$.next(false);
     state.error$.next(null);
     try { dispatch(args[0], prop); }
     catch (err) { if (!config.silent) { state.loading$.next(false); }
                   state.error$.next(err);
                   if (errorHandler) { errorHandler.handleError(err); } } }\<close>
  The result is \<open>Inl\<close> for an exception that reaches the caller.
\<close>

definition actionDispatcher ::
    "config \<Rightarrow> string \<Rightarrow> jsval list \<Rightarrow> actions \<Rightarrow> error + actions" where
  "actionDispatcher cfg prop args w =
     (let popped = (args \<noteq> [] \<and> typeofObject (last args));
          config = (if popped then last args else objLit []);
          args' = (if popped then butlast args else args);
          w1 = getOrCreateState prop w
      in andThen (getProp config ''silent'') (\<lambda>silent.
           let w2 = (if \<not> truthy silent then loadingNext prop True w1 else w1);
               w3 = errorNext prop JNull (completeNext prop False w2)
           in case dispatch cfg (case args' of [] \<Rightarrow> JUndefined | a # _ \<Rightarrow> a) prop w3 of
                (None, w4) \<Rightarrow> Inr w4
              | (Some err, w4) \<Rightarrow>
                  Inr (handleError cfg err (errorNext prop err
                         (if \<not> truthy silent then loadingNext prop False w4 else w4)))))"

section \<open>Facts about object literals\<close>

declare showNat.simps [simp del]

lemma spread_map_of:
  "map_of (foldl (\<lambda>a (k, x). AList.update k x a) acc ps) j = (map_of acc ++ map_of (rev ps)) j"
proof (induction ps arbitrary: acc)
  case Nil
  show ?case by simp
next
  case (Cons p ps)
  obtain k x where p: "p = (k, x)" by (cases p)
  show ?case
    by (simp add: p Cons.IH AList.update_conv' map_add_def split: option.splits)
qed

lemma map_of_rev_distinct:
  "distinct (map fst ps) \<Longrightarrow> map_of (rev ps) = map_of ps"
  by (metis distinct_rev map_of_inject_set rev_map set_rev)

lemma update_fresh:
  "k \<notin> fst ` set acc \<Longrightarrow> AList.update k x acc = acc @ [(k, x)]"
  by (induction acc) auto

text \<open>Spreading a well-formed object into an empty literal copies it.\<close>

lemma spread_distinct:
  "distinct (map fst (acc @ ps)) \<Longrightarrow>
     foldl (\<lambda>a (k, x). AList.update k x a) acc ps = acc @ ps"
proof (induction ps arbitrary: acc)
  case Nil
  show ?case by simp
next
  case (Cons p ps)
  obtain k x where p: "p = (k, x)" by (cases p)
  from Cons.prems have fresh: "k \<notin> fst ` set acc" by (auto simp: p)
  from Cons.prems have "distinct (map fst ((acc @ [(k, x)]) @ ps))" by (simp add: p)
  from Cons.IH [OF this] show ?case by (simp add: p update_fresh [OF fresh])
qed

lemma spread_keys_distinct:
  "distinct (map fst acc) \<Longrightarrow>
     distinct (map fst (foldl (\<lambda>a (k, x). AList.update k x a) acc ps))"
proof (induction ps arbitrary: acc)
  case Nil
  then show ?case by simp
next
  case (Cons p ps)
  obtain k x where p: "p = (k, x)" by (cases p)
  show ?case using Cons.prems by (simp add: p Cons.IH AList.distinct_update)
qed

lemma spread_keys:
  "fst ` set (foldl (\<lambda>a (k, x). AList.update k x a) acc ps) = fst ` set acc \<union> fst ` set ps"
proof (induction ps arbitrary: acc)
  case Nil
  show ?case by simp
next
  case (Cons p ps)
  obtain k x where p: "p = (k, x)" by (cases p)
  show ?case by (auto simp: p Cons.IH AList.dom_update)
qed

text \<open>The index keys of a string are decimal numerals, so none of them is \<open>value\<close>.\<close>

lemma digit_in_digits: "d < 10 \<Longrightarrow> ''0123456789'' ! d \<in> set ''0123456789''"
  by (rule nth_mem) simp

lemma showNat_digits: "set (showNat n) \<subseteq> set ''0123456789''"
proof (induction n rule: showNat.induct)
  case (1 n)
  show ?case
  proof (cases "n < 10")
    case True
    then have "showNat n = [''0123456789'' ! n]"
      by (subst showNat.simps) simp
    with digit_in_digits [OF True] show ?thesis by simp
  next
    case False
    then have "showNat n = showNat (n div 10) @ [''0123456789'' ! (n mod 10)]"
      by (subst showNat.simps) simp
    moreover have "''0123456789'' ! (n mod 10) \<in> set ''0123456789''"
      by (rule digit_in_digits) simp
    ultimately show ?thesis using "1.IH" [OF False] by simp
  qed
qed

lemma string_has_no_value: "readProp (JStr s) ''value'' = JUndefined"
proof -
  have notin: "''value'' \<notin> set (map showNat [0..<length s])"
  proof
    assume "''value'' \<in> set (map showNat [0..<length s])"
    then obtain n where "showNat n = ''value''" by auto
    with showNat_digits [of n] show False by simp
  qed
  have len: "length (map showNat [0..<length s]) = length (map (\<lambda>c. JStr [c]) s)"
    by simp
  have m: "map_of (zip (map showNat [0..<length s]) (map (\<lambda>c. JStr [c]) s)) ''value'' = None"
    using map_of_zip_is_None [OF len, of "''value''"] notin by blast
  show ?thesis
    unfolding readProp.simps ownProps.simps m by simp
qed

lemma lookup_rev_absent: "j \<notin> fst ` set ps \<Longrightarrow> map_of (rev ps) j = None"
  by (simp add: map_of_eq_None_iff)

lemma spread_lookup_other:
  assumes "distinct (map fst m)" and "j \<notin> fst ` set ps"
  shows "map_of (foldl (\<lambda>a (k, x). AList.update k x a)
                   (foldl (\<lambda>a (k, x). AList.update k x a) [] m) ps) j = map_of m j"
  using assms
  by (simp add: spread_map_of map_add_def lookup_rev_absent map_of_rev_distinct)

lemma spread_lookup_last:
  assumes "distinct (map fst p)" and "map_of p f = Some v"
  shows "map_of (foldl (\<lambda>a (k, x). AList.update k x a) acc p) f = Some v"
  using assms by (simp add: spread_map_of map_add_def map_of_rev_distinct)

section \<open>Merging a partial update into a context\<close>

text \<open>
  The value mapping that \<open>mergeEntityContext\<close> returns is the old mapping with the partial's
  mapping spread over it; every other field of the partial overrides the old one.
\<close>

lemma mergeEntityContext_object: "\<not> nullish (mergeEntityContext a b)"
  by (simp add: mergeEntityContext_def objLit_def Let_def)

lemma mergeEntityContext_value:
  assumes c: "map_of c ''value'' = Some (JObj m)"
    and p: "distinct (map fst p)" "map_of p ''value'' = Some (JObj pv)"
  shows "readProp (mergeEntityContext (JObj c) (JObj p)) ''value''
           = JObj (foldl (\<lambda>a (k, x). AList.update k x a)
                     (foldl (\<lambda>a (k, x). AList.update k x a) [] m) pv)"
  using spread_lookup_last [OF p]
  by (simp add: mergeEntityContext_def patch_def jsOr_def optProp_def objLit_def Let_def c
      AList.update_conv')

lemma mergeEntityContext_field:
  assumes p: "distinct (map fst p)" "map_of p f = Some v" and f: "f \<noteq> ''value''"
  shows "readProp (mergeEntityContext (JObj c) (JObj p)) f = v"
proof -
  define R where "R = foldl (\<lambda>a (k, x). AList.update k x a)
                        (foldl (\<lambda>a (k, x). AList.update k x a) [] c) p"
  have "distinct (map fst R)"
    unfolding R_def by (simp add: spread_keys_distinct)
  then have copy: "foldl (\<lambda>a (k, x). AList.update k x a) [] R = R"
    using spread_distinct [of "[]" R] by simp
  have look: "map_of R f = Some v"
    unfolding R_def by (rule spread_lookup_last [OF p])
  have "mergeEntityContext (JObj c) (JObj p)
          = JObj (AList.update ''value''
              (patch (jsOr (optProp (JObj c) ''value'') (objLit []))
                     (jsOr (optProp (JObj R) ''value'') (objLit []))) R)"
    by (simp add: mergeEntityContext_def patch_def jsOr_def objLit_def Let_def
        R_def [symmetric] copy)
  with look f show ?thesis
    by (simp add: AList.update_conv')
qed

text \<open>
  The callback of the \<open>reduce\<close> in \<open>mergeCollectionState\<close> adds one key per step, so the
  object it builds has no keys beyond those of \<open>update.value\<close>.
\<close>

lemma reduce_objLit_keys:
  assumes "\<And>acc key. \<exists>e. f acc key = Inr (objLit [Spread acc, Prop key e])"
  shows "\<exists>mg. reduce f (JObj a) keys = Inr (JObj mg) \<and> fst ` set mg \<subseteq> fst ` set a \<union> set keys"
proof (induction keys arbitrary: a)
  case Nil
  show ?case by simp
next
  case (Cons key keys)
  from assms obtain e where e: "f (JObj a) key = Inr (objLit [Spread (JObj a), Prop key e])"
    by blast
  define a' where "a' = AList.update key e (foldl (\<lambda>a (k, x). AList.update k x a) [] a)"
  have step: "f (JObj a) key = Inr (JObj a')"
    by (simp add: e a'_def objLit_def)
  have keys': "fst ` set a' = insert key (fst ` set a)"
    by (simp add: a'_def AList.dom_update spread_keys)
  from Cons.IH [of a'] obtain mg where
    "reduce f (JObj a') keys = Inr (JObj mg)" "fst ` set mg \<subseteq> fst ` set a' \<union> set keys"
    by blast
  with step keys' show ?case by auto
qed

lemma mergeCollectionState_value:
  assumes c: "map_of c ''value'' = Some (JObj m)"
    and p: "map_of p ''value'' = Some (JObj pv)"
  shows "\<exists>r mg. mergeCollectionState (JObj c) (JObj p) = Inr r
           \<and> fst ` set mg \<subseteq> fst ` set pv
           \<and> readProp r ''value''
               = JObj (foldl (\<lambda>a (k, x). AList.update k x a)
                         (foldl (\<lambda>a (k, x). AList.update k x a) [] m) mg)"
proof -
  define f where "f = (\<lambda>acc key.
      andThen (getProp (JObj c) ''value'') (\<lambda>sv'.
        Inr (objLit [Spread acc,
               Prop key (objLit [Spread (optProp sv' key),
                 Spread (readProp (JObj pv) key),
                 Prop ''value'' (objLit
                   [Spread (jsOr (optProp (optProp sv' key) ''value'') (objLit [])),
                    Spread (jsOr (optProp (readProp (JObj pv) key) ''value'') (objLit []))])])])))"
  have "\<And>acc key. \<exists>e. f acc key = Inr (objLit [Spread acc, Prop key e])"
    unfolding f_def by (simp add: andThen_def getProp_def c) blast
  from reduce_objLit_keys [of f "[]" "map fst pv", OF this] obtain mg where
    mg: "reduce f (JObj []) (map fst pv) = Inr (JObj mg)" "fst ` set mg \<subseteq> fst ` set pv"
    by auto
  have "mergeCollectionState (JObj c) (JObj p)
          = andThen (reduce f (JObj []) (map fst pv)) (\<lambda>merged.
              Inr (objLit [Spread (objLit [Spread (JObj c), Spread (JObj p)]),
                     Prop ''value'' (objLit [Spread (JObj m), Spread merged])]))"
    unfolding f_def
    by (simp add: mergeCollectionState_def Let_def andThen_def getProp_def c p objectKeys_def
        objLit_def [of "[]"])
  with mg(1) have "mergeCollectionState (JObj c) (JObj p)
          = Inr (objLit [Spread (objLit [Spread (JObj c), Spread (JObj p)]),
                   Prop ''value'' (objLit [Spread (JObj m), Spread (JObj mg)])])"
    by (simp add: andThen_def)
  moreover have "readProp (objLit [Spread (objLit [Spread (JObj c), Spread (JObj p)]),
                   Prop ''value'' (objLit [Spread (JObj m), Spread (JObj mg)])]) ''value''
          = JObj (foldl (\<lambda>a (k, x). AList.update k x a)
                         (foldl (\<lambda>a (k, x). AList.update k x a) [] m) mg)"
    by (simp add: objLit_def AList.update_conv')
  ultimately show ?thesis using mg(2) by blast
qed

text \<open>
  Claim C1. Let \<open>C\<close> be a collection whose value mapping \<open>m\<close> is well formed and \<open>P\<close> a
  well-formed partial update whose value mapping has no key other than \<open>k\<close>. Then in the
  value mapping of \<open>mergeEntityContext(C, P)\<close>, and in that of \<open>mergeCollectionState(C, P)\<close>,
  every key \<open>j\<close> different from \<open>k\<close> has exactly the entry it has in \<open>m\<close> (or none, if it
  has none in \<open>m\<close>).
\<close>

theorem merge_keeps_other_entities:
  assumes "map_of c ''value'' = Some (JObj m)" and "distinct (map fst m)"
    and "distinct (map fst p)" and "map_of p ''value'' = Some (JObj pv)"
    and "fst ` set pv \<subseteq> {k}" and "j \<noteq> k"
  shows "(\<exists>mv. readProp (mergeEntityContext (JObj c) (JObj p)) ''value'' = JObj mv
            \<and> map_of mv j = map_of m j)
       \<and> (\<exists>r mv. mergeCollectionState (JObj c) (JObj p) = Inr r
            \<and> readProp r ''value'' = JObj mv \<and> map_of mv j = map_of m j)"
proof
  from assms(5,6) have "j \<notin> fst ` set pv" by blast
  then show "\<exists>mv. readProp (mergeEntityContext (JObj c) (JObj p)) ''value'' = JObj mv
            \<and> map_of mv j = map_of m j"
    using mergeEntityContext_value [OF assms(1,3,4)] spread_lookup_other [OF assms(2)]
    by simp
next
  from mergeCollectionState_value [OF assms(1,4)] obtain r mg where
    r: "mergeCollectionState (JObj c) (JObj p) = Inr r" "fst ` set mg \<subseteq> fst ` set pv"
      "readProp r ''value'' = JObj (foldl (\<lambda>a (k, x). AList.update k x a)
                         (foldl (\<lambda>a (k, x). AList.update k x a) [] m) mg)"
    by blast
  from r(2) assms(5,6) have "j \<notin> fst ` set mg" by blast
  with r(1,3) spread_lookup_other [OF assms(2)]
  show "\<exists>r mv. mergeCollectionState (JObj c) (JObj p) = Inr r
            \<and> readProp r ''value'' = JObj mv \<and> map_of mv j = map_of m j"
    by simp
qed

theorem merge_keeps_other_entities_witness:
  "map_of [(''value'', JObj [(''1'', JNum 10), (''2'', JNum 20)]), (''loading'', JBool True)]
       ''value'' = Some (JObj [(''1'', JNum 10), (''2'', JNum 20)])
   \<and> distinct (map fst [(''1'', JNum 10), (''2'', JNum 20)])
   \<and> distinct (map fst [(''value'', JObj [(''2'', JNum 21)]), (''loading'', JBool False)])
   \<and> map_of [(''value'', JObj [(''2'', JNum 21)]), (''loading'', JBool False)] ''value''
        = Some (JObj [(''2'', JNum 21)])
   \<and> fst ` set [(''2'', JNum 21)] \<subseteq> {''2''} \<and> ''1'' \<noteq> ''2''
   \<and> (\<exists>mv. readProp (mergeEntityContext
               (JObj [(''value'', JObj [(''1'', JNum 10), (''2'', JNum 20)]),
                      (''loading'', JBool True)])
               (JObj [(''value'', JObj [(''2'', JNum 21)]), (''loading'', JBool False)]))
             ''value'' = JObj mv
          \<and> map_of mv ''1'' = Some (JNum 10))
   \<and> (\<exists>r mv. mergeCollectionState
               (JObj [(''value'', JObj [(''1'', JNum 10), (''2'', JNum 20)]),
                      (''loading'', JBool True)])
               (JObj [(''value'', JObj [(''2'', JNum 21)]), (''loading'', JBool False)]) = Inr r
          \<and> readProp r ''value'' = JObj mv \<and> map_of mv ''1'' = Some (JNum 10))"
  using merge_keeps_other_entities
    [of "[(''value'', JObj [(''1'', JNum 10), (''2'', JNum 20)]), (''loading'', JBool True)]"
        "[(''1'', JNum 10), (''2'', JNum 20)]"
        "[(''value'', JObj [(''2'', JNum 21)]), (''loading'', JBool False)]"
        "[(''2'', JNum 21)]" "''2''" "''1''"]
  by simp

text \<open>
  The value that \<open>mergeEntityContext\<close> returns for a well-formed old context, whatever the
  partial carries as \<open>value\<close>: the old mapping with the own properties of
  \<open>resultState.value || {}\<close> spread over it, where \<open>resultState.value\<close> is the partial's
  value if the partial has that field and the old value otherwise.
\<close>

lemma mergeEntityContext_value_general:
  assumes c: "distinct (map fst c)" "map_of c ''value'' = Some (JObj ov)"
    and p: "distinct (map fst p)"
  shows "readProp (mergeEntityContext (JObj c) (JObj p)) ''value''
           = JObj (foldl (\<lambda>a (k, x). AList.update k x a)
                     (foldl (\<lambda>a (k, x). AList.update k x a) [] ov)
                     (ownProps (jsOr (case map_of p ''value'' of
                                        None \<Rightarrow> JObj ov | Some x \<Rightarrow> x) (JObj []))))"
proof -
  define R where "R = foldl (\<lambda>a (k, x). AList.update k x a)
                        (foldl (\<lambda>a (k, x). AList.update k x a) [] c) p"
  have copy: "foldl (\<lambda>a (k, x). AList.update k x a) [] c = c"
    using spread_distinct [of "[]" c] c(1) by simp
  have look: "map_of R ''value''
                = (case map_of p ''value'' of None \<Rightarrow> Some (JObj ov) | Some x \<Rightarrow> Some x)"
    unfolding R_def copy
    by (simp add: spread_map_of map_add_def map_of_rev_distinct [OF p] c(2)
        split: option.splits)
  have rv: "optProp (JObj R) ''value''
              = (case map_of p ''value'' of None \<Rightarrow> JObj ov | Some x \<Rightarrow> x)"
    by (simp add: optProp_def look split: option.splits)
  have "mergeEntityContext (JObj c) (JObj p)
          = objLit [Spread (JObj R),
              Prop ''value'' (patch (jsOr (optProp (JObj c) ''value'') (objLit []))
                                    (jsOr (optProp (JObj R) ''value'') (objLit [])))]"
    by (simp add: mergeEntityContext_def patch_def jsOr_def objLit_def Let_def
        R_def [symmetric])
  then have "readProp (mergeEntityContext (JObj c) (JObj p)) ''value''
          = patch (jsOr (optProp (JObj c) ''value'') (objLit []))
                  (jsOr (optProp (JObj R) ''value'') (objLit []))"
    by (simp add: objLit_def AList.update_conv')
  also have "\<dots> = JObj (foldl (\<lambda>a (k, x). AList.update k x a)
                     (foldl (\<lambda>a (k, x). AList.update k x a) [] ov)
                     (ownProps (jsOr (case map_of p ''value'' of
                                        None \<Rightarrow> JObj ov | Some x \<Rightarrow> x) (JObj []))))"
    unfolding rv by (simp add: patch_def objLit_def optProp_def jsOr_def c(2))
  finally show ?thesis .
qed

text \<open>
  In the key-wise union the partial's value contributes its own properties; spreading the
  old mapping over itself (the case of a partial without a \<open>value\<close> field) or spreading
  \<open>undefined\<close>, \<open>null\<close>, a boolean or a number adds nothing.
\<close>

lemma mergeEntityContext_union:
  assumes c: "distinct (map fst c)" "map_of c ''value'' = Some (JObj ov)"
    and ov: "distinct (map fst ov)" and p: "distinct (map fst p)"
    and nostr: "\<forall>s. readProp (JObj p) ''value'' \<noteq> JStr s"
    and wf: "\<forall>pv. readProp (JObj p) ''value'' = JObj pv \<longrightarrow> distinct (map fst pv)"
  shows "\<exists>mv. readProp (mergeEntityContext (JObj c) (JObj p)) ''value'' = JObj mv
           \<and> map_of mv = map_of ov ++ map_of (ownProps (readProp (JObj p) ''value''))"
proof -
  define u where "u = ownProps (jsOr (case map_of p ''value'' of
                                        None \<Rightarrow> JObj ov | Some x \<Rightarrow> x) (JObj []))"
  have "map_of ov ++ map_of (rev u)
          = map_of ov ++ map_of (ownProps (readProp (JObj p) ''value''))"
  proof (cases "map_of p ''value''")
    case None
    then have "u = ov" by (simp add: u_def jsOr_def)
    with None ov show ?thesis
      by (simp add: map_of_rev_distinct fun_eq_iff map_add_def split: option.splits)
  next
    case (Some x)
    show ?thesis
    proof (cases x)
      case (JObj pv)
      with Some wf have "distinct (map fst pv)" by simp
      with Some JObj show ?thesis
        by (simp add: u_def jsOr_def map_of_rev_distinct)
    next
      case (JStr s)
      with Some nostr show ?thesis by simp
    qed (use Some in \<open>simp_all add: u_def jsOr_def\<close>)
  qed
  moreover have "map_of (foldl (\<lambda>a (k, x). AList.update k x a)
                     (foldl (\<lambda>a (k, x). AList.update k x a) [] ov) u)
                   = map_of ov ++ map_of (rev u)"
    using ov
    by (simp add: fun_eq_iff spread_map_of map_of_rev_distinct map_add_def
        split: option.splits)
  ultimately show ?thesis
    using mergeEntityContext_value_general [OF c p] by (simp add: u_def)
qed

text \<open>
  \<open>mergeContextState\<close> puts the partial's value in the place of the old one, unless that
  value is \<open>undefined\<close> (also: absent) or \<open>null\<close>; every other field of the partial
  overrides.
\<close>

lemma mergeContextState_result:
  assumes c: "map_of c ''value'' = Some (JObj ov)" and p: "distinct (map fst p)"
  shows "\<exists>r. mergeContextState (JObj c) (JObj p) = Inr r
           \<and> readProp r ''value''
               = (if nullish (readProp (JObj p) ''value'') then JObj ov
                  else readProp (JObj p) ''value'')
           \<and> (\<forall>f v. f \<noteq> ''value'' \<and> map_of p f = Some v \<longrightarrow> readProp r f = v)"
proof -
  define v where "v = (if nullish (readProp (JObj p) ''value'') then JObj ov
                       else readProp (JObj p) ''value'')"
  define R where "R = foldl (\<lambda>a (k, x). AList.update k x a)
                        (foldl (\<lambda>a (k, x). AList.update k x a) [] c) p"
  have eq: "mergeContextState (JObj c) (JObj p) = Inr (JObj (AList.update ''value'' v R))"
    by (simp add: mergeContextState_def andThen_def getProp_def objLit_def c v_def R_def)
  have val: "readProp (JObj (AList.update ''value'' v R)) ''value'' = v"
    by (simp add: AList.update_conv')
  have fields: "\<forall>f w. f \<noteq> ''value'' \<and> map_of p f = Some w
                  \<longrightarrow> readProp (JObj (AList.update ''value'' v R)) f = w"
    using spread_lookup_last [OF p] unfolding R_def
    by (simp add: AList.update_conv')
  from eq val fields show ?thesis
    unfolding v_def [symmetric] by blast
qed

text \<open>
  Claim C2 says that the context merge merges the value field key-wise instead of replacing
  it: old value \<open>{a: 1, b: 2}\<close> and partial value \<open>{b: 3}\<close> give \<open>{a: 1, b: 3}\<close>. For
  \<open>mergeContextState\<close> that is not so: on these two values it returns \<open>{b: 3}\<close>.
\<close>

theorem mergeContextState_replaces_value:
  "mergeContextState (JObj [(''value'', JObj [(''a'', JNum 1), (''b'', JNum 2)])])
                     (JObj [(''value'', JObj [(''b'', JNum 3)])])
     = Inr (JObj [(''value'', JObj [(''b'', JNum 3)])])"
  by (simp add: mergeContextState_def andThen_def getProp_def objLit_def)

text \<open>
  Claim C2, amended. Let \<open>old\<close> be a well-formed context whose \<open>value\<close> is a well-formed
  mapping, and \<open>partial\<close> any well-formed partial update whose \<open>value\<close>, read as
  \<open>partial.value\<close> (\<open>undefined\<close> when the field is absent), is not a string and is well
  formed if it is an object. Then
  \<^item> in \<open>mergeEntityContext(old, partial)\<close> and in \<open>mergeContextState(old, partial)\<close>, every
    field of \<open>partial\<close> other than \<open>value\<close> overrides the field of \<open>old\<close>;
  \<^item> the \<open>value\<close> of \<open>mergeEntityContext(old, partial)\<close> is the shallow key-wise union of
    \<open>old.value\<close> and the own properties of \<open>partial.value\<close>, the latter overriding (there
    are none when \<open>partial.value\<close> is \<open>undefined\<close>, \<open>null\<close>, a boolean or a number);
  \<^item> the \<open>value\<close> of \<open>mergeContextState(old, partial)\<close> is not merged: it is
    \<open>partial.value\<close> when that is neither \<open>undefined\<close> nor \<open>null\<close>, and \<open>old.value\<close>
    otherwise.
\<close>

theorem context_merge_value:
  assumes "distinct (map fst c)" and "map_of c ''value'' = Some (JObj ov)"
    and "distinct (map fst ov)" and "distinct (map fst p)"
    and "\<forall>s. readProp (JObj p) ''value'' \<noteq> JStr s"
    and "\<forall>pv. readProp (JObj p) ''value'' = JObj pv \<longrightarrow> distinct (map fst pv)"
  shows "(\<forall>f v. f \<noteq> ''value'' \<and> map_of p f = Some v
            \<longrightarrow> readProp (mergeEntityContext (JObj c) (JObj p)) f = v)
       \<and> (\<exists>mv. readProp (mergeEntityContext (JObj c) (JObj p)) ''value'' = JObj mv
            \<and> map_of mv = map_of ov ++ map_of (ownProps (readProp (JObj p) ''value'')))
       \<and> (\<exists>r. mergeContextState (JObj c) (JObj p) = Inr r
            \<and> (\<forall>f v. f \<noteq> ''value'' \<and> map_of p f = Some v \<longrightarrow> readProp r f = v)
            \<and> readProp r ''value''
                = (if nullish (readProp (JObj p) ''value'') then JObj ov
                   else readProp (JObj p) ''value''))"
proof (intro conjI)
  show "\<forall>f v. f \<noteq> ''value'' \<and> map_of p f = Some v
            \<longrightarrow> readProp (mergeEntityContext (JObj c) (JObj p)) f = v"
    using mergeEntityContext_field [OF assms(4)] by blast
next
  show "\<exists>mv. readProp (mergeEntityContext (JObj c) (JObj p)) ''value'' = JObj mv
            \<and> map_of mv = map_of ov ++ map_of (ownProps (readProp (JObj p) ''value''))"
    by (rule mergeEntityContext_union [OF assms])
next
  from mergeContextState_result [OF assms(2,4)]
  show "\<exists>r. mergeContextState (JObj c) (JObj p) = Inr r
            \<and> (\<forall>f v. f \<noteq> ''value'' \<and> map_of p f = Some v \<longrightarrow> readProp r f = v)
            \<and> readProp r ''value''
                = (if nullish (readProp (JObj p) ''value'') then JObj ov
                   else readProp (JObj p) ''value'')"
    by blast
qed

text \<open>
  The witness applies the theorem to the example of the claim (with a \<open>loading\<close> field on
  both sides), to a partial without a \<open>value\<close> field and to the partial \<open>{value: null}\<close>,
  and adds the example itself, evaluated for \<open>mergeEntityContext\<close>.
\<close>

theorem context_merge_value_witness:
  "(\<exists>mv. readProp (mergeEntityContext
               (JObj [(''value'', JObj [(''a'', JNum 1), (''b'', JNum 2)]),
                      (''loading'', JBool False)])
               (JObj [(''value'', JObj [(''b'', JNum 3)]), (''loading'', JBool True)]))
             ''value'' = JObj mv
          \<and> map_of mv = map_of [(''a'', JNum 1), (''b'', JNum 2)] ++ map_of [(''b'', JNum 3)])
   \<and> readProp (mergeEntityContext
               (JObj [(''value'', JObj [(''a'', JNum 1), (''b'', JNum 2)]),
                      (''loading'', JBool False)])
               (JObj [(''value'', JObj [(''b'', JNum 3)]), (''loading'', JBool True)]))
        ''loading'' = JBool True
   \<and> (\<exists>r. mergeContextState
               (JObj [(''value'', JObj [(''a'', JNum 1), (''b'', JNum 2)]),
                      (''loading'', JBool False)])
               (JObj [(''value'', JObj [(''b'', JNum 3)]), (''loading'', JBool True)]) = Inr r
          \<and> readProp r ''loading'' = JBool True
          \<and> readProp r ''value'' = JObj [(''b'', JNum 3)])
   \<and> (\<exists>mv. readProp (mergeEntityContext
               (JObj [(''value'', JObj [(''a'', JNum 1), (''b'', JNum 2)]),
                      (''loading'', JBool False)])
               (JObj [(''loading'', JBool True)]))
             ''value'' = JObj mv
          \<and> map_of mv = map_of [(''a'', JNum 1), (''b'', JNum 2)])
   \<and> (\<exists>r. mergeContextState
               (JObj [(''value'', JObj [(''a'', JNum 1), (''b'', JNum 2)]),
                      (''loading'', JBool False)])
               (JObj [(''loading'', JBool True)]) = Inr r
          \<and> readProp r ''loading'' = JBool True
          \<and> readProp r ''value'' = JObj [(''a'', JNum 1), (''b'', JNum 2)])
   \<and> (\<exists>mv. readProp (mergeEntityContext
               (JObj [(''value'', JObj [(''a'', JNum 1), (''b'', JNum 2)]),
                      (''loading'', JBool False)])
               (JObj [(''value'', JNull)]))
             ''value'' = JObj mv
          \<and> map_of mv = map_of [(''a'', JNum 1), (''b'', JNum 2)])
   \<and> (\<exists>r. mergeContextState
               (JObj [(''value'', JObj [(''a'', JNum 1), (''b'', JNum 2)]),
                      (''loading'', JBool False)])
               (JObj [(''value'', JNull)]) = Inr r
          \<and> readProp r ''value'' = JObj [(''a'', JNum 1), (''b'', JNum 2)])
   \<and> mergeEntityContext (JObj [(''value'', JObj [(''a'', JNum 1), (''b'', JNum 2)])])
                         (JObj [(''value'', JObj [(''b'', JNum 3)])])
        = JObj [(''value'', JObj [(''a'', JNum 1), (''b'', JNum 3)])]"
proof -
  let ?old = "[(''value'', JObj [(''a'', JNum 1), (''b'', JNum 2)]), (''loading'', JBool False)]"
  let ?ov = "[(''a'', JNum 1), (''b'', JNum 2)]"
  let ?p1 = "[(''value'', JObj [(''b'', JNum 3)]), (''loading'', JBool True)]"
  let ?p2 = "[(''loading'', JBool True)]"
  let ?p3 = "[(''value'', JNull)]"
  have old: "distinct (map fst ?old)" "map_of ?old ''value'' = Some (JObj ?ov)"
    "distinct (map fst ?ov)"
    by simp_all
  have ex: "mergeEntityContext (JObj [(''value'', JObj [(''a'', JNum 1), (''b'', JNum 2)])])
                         (JObj [(''value'', JObj [(''b'', JNum 3)])])
        = JObj [(''value'', JObj [(''a'', JNum 1), (''b'', JNum 3)])]"
    by (simp add: mergeEntityContext_def patch_def jsOr_def optProp_def objLit_def
        createInitialContext_def)
  have A: "(\<forall>f v. f \<noteq> ''value'' \<and> map_of ?p1 f = Some v
            \<longrightarrow> readProp (mergeEntityContext (JObj ?old) (JObj ?p1)) f = v)
       \<and> (\<exists>mv. readProp (mergeEntityContext (JObj ?old) (JObj ?p1)) ''value'' = JObj mv
            \<and> map_of mv = map_of ?ov ++ map_of (ownProps (readProp (JObj ?p1) ''value'')))
       \<and> (\<exists>r. mergeContextState (JObj ?old) (JObj ?p1) = Inr r
            \<and> (\<forall>f v. f \<noteq> ''value'' \<and> map_of ?p1 f = Some v \<longrightarrow> readProp r f = v)
            \<and> readProp r ''value''
                = (if nullish (readProp (JObj ?p1) ''value'') then JObj ?ov
                   else readProp (JObj ?p1) ''value''))"
    by (rule context_merge_value [OF old]) simp_all
  have B: "(\<forall>f v. f \<noteq> ''value'' \<and> map_of ?p2 f = Some v
            \<longrightarrow> readProp (mergeEntityContext (JObj ?old) (JObj ?p2)) f = v)
       \<and> (\<exists>mv. readProp (mergeEntityContext (JObj ?old) (JObj ?p2)) ''value'' = JObj mv
            \<and> map_of mv = map_of ?ov ++ map_of (ownProps (readProp (JObj ?p2) ''value'')))
       \<and> (\<exists>r. mergeContextState (JObj ?old) (JObj ?p2) = Inr r
            \<and> (\<forall>f v. f \<noteq> ''value'' \<and> map_of ?p2 f = Some v \<longrightarrow> readProp r f = v)
            \<and> readProp r ''value''
                = (if nullish (readProp (JObj ?p2) ''value'') then JObj ?ov
                   else readProp (JObj ?p2) ''value''))"
    by (rule context_merge_value [OF old]) simp_all
  have C: "(\<forall>f v. f \<noteq> ''value'' \<and> map_of ?p3 f = Some v
            \<longrightarrow> readProp (mergeEntityContext (JObj ?old) (JObj ?p3)) f = v)
       \<and> (\<exists>mv. readProp (mergeEntityContext (JObj ?old) (JObj ?p3)) ''value'' = JObj mv
            \<and> map_of mv = map_of ?ov ++ map_of (ownProps (readProp (JObj ?p3) ''value'')))
       \<and> (\<exists>r. mergeContextState (JObj ?old) (JObj ?p3) = Inr r
            \<and> (\<forall>f v. f \<noteq> ''value'' \<and> map_of ?p3 f = Some v \<longrightarrow> readProp r f = v)
            \<and> readProp r ''value''
                = (if nullish (readProp (JObj ?p3) ''value'') then JObj ?ov
                   else readProp (JObj ?p3) ''value''))"
    by (rule context_merge_value [OF old]) simp_all
  have a1: "\<exists>mv. readProp (mergeEntityContext (JObj ?old) (JObj ?p1)) ''value'' = JObj mv
          \<and> map_of mv = map_of ?ov ++ map_of [(''b'', JNum 3)]"
    using A by simp
  have a2: "readProp (mergeEntityContext (JObj ?old) (JObj ?p1)) ''loading'' = JBool True"
    using A [THEN conjunct1, rule_format, of "''loading''" "JBool True"] by simp
  from A obtain r1 where r1: "mergeContextState (JObj ?old) (JObj ?p1) = Inr r1"
      "\<forall>f v. f \<noteq> ''value'' \<and> map_of ?p1 f = Some v \<longrightarrow> readProp r1 f = v"
      "readProp r1 ''value''
         = (if nullish (readProp (JObj ?p1) ''value'') then JObj ?ov
            else readProp (JObj ?p1) ''value'')"
    by blast
  have a3: "\<exists>r. mergeContextState (JObj ?old) (JObj ?p1) = Inr r
          \<and> readProp r ''loading'' = JBool True
          \<and> readProp r ''value'' = JObj [(''b'', JNum 3)]"
    using r1(1) r1(2) [rule_format, of "''loading''" "JBool True"] r1(3) by simp
  have b1: "\<exists>mv. readProp (mergeEntityContext (JObj ?old) (JObj ?p2)) ''value'' = JObj mv
          \<and> map_of mv = map_of ?ov"
    using B by simp
  from B obtain r2 where r2: "mergeContextState (JObj ?old) (JObj ?p2) = Inr r2"
      "\<forall>f v. f \<noteq> ''value'' \<and> map_of ?p2 f = Some v \<longrightarrow> readProp r2 f = v"
      "readProp r2 ''value''
         = (if nullish (readProp (JObj ?p2) ''value'') then JObj ?ov
            else readProp (JObj ?p2) ''value'')"
    by blast
  have b2: "\<exists>r. mergeContextState (JObj ?old) (JObj ?p2) = Inr r
          \<and> readProp r ''loading'' = JBool True
          \<and> readProp r ''value'' = JObj ?ov"
    using r2(1) r2(2) [rule_format, of "''loading''" "JBool True"] r2(3) by simp
  have c1: "\<exists>mv. readProp (mergeEntityContext (JObj ?old) (JObj ?p3)) ''value'' = JObj mv
          \<and> map_of mv = map_of ?ov"
    using C by simp
  from C obtain r3 where "mergeContextState (JObj ?old) (JObj ?p3) = Inr r3"
      "readProp r3 ''value''
         = (if nullish (readProp (JObj ?p3) ''value'') then JObj ?ov
            else readProp (JObj ?p3) ''value'')"
    by blast
  then have c2: "\<exists>r. mergeContextState (JObj ?old) (JObj ?p3) = Inr r
          \<and> readProp r ''value'' = JObj ?ov"
    by simp
  from a1 a2 a3 b1 b2 c1 c2 ex show ?thesis
    by (intro conjI)
qed

section \<open>The loading bracket\<close>

text \<open>A producer that fails gets the start marker only.\<close>

lemma withLoadingEmission_failed:
  "withLoadingEmission None (Observable xs (Failed e))
     = Observable (JObj [(''loading'', JBool True)] # xs) (Failed e)"
  by (simp add: withLoadingEmission_def defaultLoadingProp_def objLit_def Let_def)

text \<open>
  Claim C3. A producer that emits exactly one value \<open>x\<close> and then completes, wrapped by
  \<open>withLoadingEmission()\<close>, delivers exactly \<open>{loading: true}\<close>, \<open>x\<close>, \<open>{loading: false}\<close> in
  that order. More generally, for a producer that emits \<open>xs\<close> and completes, the true marker
  comes before every value of \<open>xs\<close> and the false marker is the last element.
\<close>

theorem withLoadingEmission_brackets:
  "delivered (withLoadingEmission None (Observable [x] Completed))
      = [JObj [(''loading'', JBool True)], x, JObj [(''loading'', JBool False)]]
   \<and> withLoadingEmission None (Observable xs Completed)
      = Observable (JObj [(''loading'', JBool True)] # xs @ [JObj [(''loading'', JBool False)]])
          Completed"
  by (simp add: withLoadingEmission_def defaultLoadingProp_def objLit_def Let_def)

section \<open>A failed fetch of all todos\<close>

text \<open>
  Claim C4. Let the state hold a collection \<open>C\<close> under \<open>todos\<close> whose value mapping \<open>m\<close> is
  well formed, and let the fetch fail with an error whose \<open>message\<close> is \<open>"boom"\<close>. Then
  \<open>withContextError\<close> of that error (without an entity id) returns normally, and merging its
  result with the projection of the fetch-all connection yields a collection whose \<open>error\<close>
  is \<open>"boom"\<close>, whose \<open>loading\<close> is \<open>false\<close> and whose value mapping is \<open>m\<close>.
\<close>

theorem fetch_failure_recorded:
  assumes "map_of st ''todos'' = Some (JObj c)" and "map_of c ''value'' = Some (JObj m)"
    and "distinct (map fst m)" and "map_of err ''message'' = Some (JStr ''boom'')"
  shows "\<exists>p r. withContextError (JObj err) None = Inr p
           \<and> fetchTodosProject (JObj st) p = Inr r
           \<and> readProp r ''error'' = JStr ''boom''
           \<and> readProp r ''loading'' = JBool False
           \<and> readProp r ''value'' = JObj m"
proof -
  define p where "p = JObj [(''value'', JObj []), (''loading'', JBool False),
                            (''error'', JStr ''boom'')]"
  have p: "withContextError (JObj err) None = Inr p"
    by (simp add: withContextError_def andThen_def getProp_def objLit_def jsOr_def assms(4)
        p_def)
  have copy: "foldl (\<lambda>a (k, x). AList.update k x a) [] m = m"
    using spread_distinct [of "[]" m] assms(3) by simp
  have v: "readProp (mergeEntityContext (JObj c) p) ''value'' = JObj m"
    using mergeEntityContext_value [of c m "[(''value'', JObj []), (''loading'', JBool False),
                            (''error'', JStr ''boom'')]" "[]"] assms(2)
    by (simp add: p_def copy)
  have "fetchTodosProject (JObj st) p
          = Inr (objLit [Spread (JObj st), Prop ''value'' (JObj m),
                   Prop ''loading'' (JBool False), Prop ''error'' (JStr ''boom'')])"
    using v
    by (simp add: fetchTodosProject_def andThen_def getProp_def assms(1)
        mergeEntityContext_object) (simp add: p_def)
  with p show ?thesis
    by (simp add: objLit_def AList.update_conv')
qed

theorem fetch_failure_recorded_witness:
  "map_of [(''todos'', JObj [(''value'', JObj [(''1'', JNum 10)]), (''loading'', JBool True)])]
      ''todos'' = Some (JObj [(''value'', JObj [(''1'', JNum 10)]), (''loading'', JBool True)])
   \<and> map_of [(''value'', JObj [(''1'', JNum 10)]), (''loading'', JBool True)] ''value''
        = Some (JObj [(''1'', JNum 10)])
   \<and> distinct (map fst [(''1'', JNum 10)])
   \<and> map_of [(''message'', JStr ''boom'')] ''message'' = Some (JStr ''boom'')
   \<and> (\<exists>p r. withContextError (JObj [(''message'', JStr ''boom'')]) None = Inr p
         \<and> fetchTodosProject
              (JObj [(''todos'', JObj [(''value'', JObj [(''1'', JNum 10)]),
                                       (''loading'', JBool True)])]) p = Inr r
         \<and> readProp r ''error'' = JStr ''boom''
         \<and> readProp r ''loading'' = JBool False
         \<and> readProp r ''value'' = JObj [(''1'', JNum 10)])"
  using fetch_failure_recorded
    [of "[(''todos'', JObj [(''value'', JObj [(''1'', JNum 10)]), (''loading'', JBool True)])]"
        "[(''value'', JObj [(''1'', JNum 10)]), (''loading'', JBool True)]"
        "[(''1'', JNum 10)]" "[(''message'', JStr ''boom'')]"]
  by simp

section \<open>Overlapping dispatches of the fetch-all action\<close>

text \<open>
  Every dispatch of an action without a transform makes the action's subject emit the
  payload once; that emission is the event \<open>DispatchFetchTodos\<close> of the fetch-all stream.
  The pipeline that \<open>getEventEmitter\<close> subscribes uses \<open>switchMap\<close>, but it only feeds the
  action's loading, complete and error subjects and never calls the fetch interface.
\<close>

lemma dispatch_emits_once:
  assumes "transformsMap cfg prop = None" and "subjectMap w prop = Some s"
  shows "\<exists>s'. subjectMap (snd (dispatch cfg v prop w)) prop = Some s'
           \<and> emitted s' = emitted s @ [v]"
  using assms
  by (simp add: dispatch_def subjectNext_def trackEmission_def loadingNext_def
      applyTransform_def Let_def)

lemma fetchTodosRun_snoc:
  "fetchTodosRun (evs @ [e]) = fetchTodosStep (fetchTodosRun evs) e"
  by (simp add: fetchTodosRun_def)

lemma inFlight_after_dispatch:
  "inFlight (fetchTodosStep s DispatchFetchTodos)"
  by (simp add: exhaustMap_def getTodos_def)

text \<open>
  Claim C5. When \<open>fetchTodos\<close> is dispatched twice before the first request settles, exactly
  one call is made to the list operation of the fetch interface; and after any history of
  dispatches and settlements, a dispatch that directly follows another dispatch is dropped:
  it changes neither the number of calls nor the request in flight.
\<close>

theorem fetchTodos_exhaust:
  "listCalls (fetchTodosRun [DispatchFetchTodos, DispatchFetchTodos]) = 1
   \<and> fetchTodosRun (evs @ [DispatchFetchTodos, DispatchFetchTodos])
       = fetchTodosRun (evs @ [DispatchFetchTodos])"
proof
  show "listCalls (fetchTodosRun [DispatchFetchTodos, DispatchFetchTodos]) = 1"
    by (simp add: fetchTodosRun_def exhaustMap_def getTodos_def)
next
  have "fetchTodosRun (evs @ [DispatchFetchTodos, DispatchFetchTodos])
          = fetchTodosStep (fetchTodosRun (evs @ [DispatchFetchTodos])) DispatchFetchTodos"
    using fetchTodosRun_snoc [of "evs @ [DispatchFetchTodos]" DispatchFetchTodos] by simp
  also have "\<dots> = fetchTodosRun (evs @ [DispatchFetchTodos])"
    using inFlight_after_dispatch [of "fetchTodosRun evs"]
    by (simp add: fetchTodosRun_snoc exhaustMap_def)
  finally show "fetchTodosRun (evs @ [DispatchFetchTodos, DispatchFetchTodos])
       = fetchTodosRun (evs @ [DispatchFetchTodos])" .
qed

section \<open>A payload transform that throws\<close>

text \<open>
  \<open>dispatch\<close> catches whatever the transform throws and hands it to the error sink. It
  never throws itself, so the \<open>catch\<close> block of the calling dispatcher function, the one
  that would send the cause to \<open>error$\<close> and \<open>false\<close> to \<open>loading$\<close>, is not entered.
\<close>

lemma dispatch_returns: "fst (dispatch cfg v prop w) = None"
  by (simp add: dispatch_def Let_def split: sum.splits)

lemma dispatch_transform_throws:
  assumes "transformsMap cfg prop = Some f" and "f v = Inl cause"
  shows "stateMap (snd (dispatch cfg v prop w)) = stateMap w"
  using assms
  by (simp add: dispatch_def Let_def applyTransform_def handleError_def split: option.splits)

lemma dispatcher_transform_throws:
  assumes "transformsMap cfg prop = Some f" and "f v = Inl cause" and "\<not> typeofObject v"
    and "stateMap w prop = Some t"
  shows "\<exists>w'. actionDispatcher cfg prop [v] w = Inr w'
          \<and> stateMap w' prop = Some (t\<lparr>loading_S := loading_S t @ [True],
                                        complete_S := complete_S t @ [False],
                                        error_S := error_S t @ [JNull]\<rparr>)
          \<and> handledErrors w' = (if errorHandler cfg then handledErrors w @ [cause]
                                 else handledErrors w)"
  using assms
  by (simp add: actionDispatcher_def getOrCreateState_def
      andThen_def getProp_def objLit_def loadingNext_def completeNext_def errorNext_def
      dispatch_def applyTransform_def handleError_def Let_def split: option.splits)

text \<open>
  Claim C6 says that when the registered transform throws during a dispatch, the error does
  not reach the caller, the action's error signal is set to the thrown cause, and the cause
  is reported to the error sink. With a transform for \<open>save\<close> that throws \<open>"bad"\<close>, the
  emitter of \<open>save\<close> set up, and \<open>save(1)\<close> dispatched: the call returns and the sink
  receives \<open>"bad"\<close>, but \<open>error$\<close> has been sent \<open>null\<close> only, and \<open>loading$\<close> stays \<open>true\<close>.
\<close>

theorem transform_error_not_recorded:
  "actionDispatcher
      \<lparr>transformsMap = [''save'' \<mapsto> (\<lambda>v. Inl (JStr ''bad''))], errorHandler = True\<rparr>
      ''save'' [JNum 1] (getEventEmitter ''save'' newActions)
     = Inr \<lparr>stateMap = [''save'' \<mapsto>
               \<lparr>loading_S = [False, True], complete_S = [False], error_S = [JNull]\<rparr>],
            subjectMap = [''save'' \<mapsto> \<lparr>emitted = [], tracked = True, awaiting = None\<rparr>],
            handledErrors = [JStr ''bad'']\<rparr>"
  by (simp add: actionDispatcher_def getEventEmitter_def newActions_def getOrCreateState_def
      andThen_def getProp_def objLit_def loadingNext_def completeNext_def errorNext_def
      dispatch_def applyTransform_def handleError_def Let_def)

section \<open>Updating an entity\<close>

text \<open>
  For an entity that is in the collection and has a value, \<open>updateEntity\<close> merges the update
  into that value.
\<close>

lemma updateEntity_present:
  assumes "map_of c ''value'' = Some (JObj m)" and "map_of m k = Some (JObj e)"
    and "map_of e ''value'' = Some (JObj ev)"
  shows "\<exists>r. updateEntity (JObj c) k (JObj u) = Inr r
           \<and> readProp (readProp (readProp r ''value'') k) ''value''
               = objLit [Spread (JObj ev), Spread (JObj u)]"
  by (simp add: updateEntity_def andThen_def getProp_def objLit_def assms AList.update_conv')

text \<open>
  For an entity id that is not in the collection (and is not the name of a member inherited
  from \<open>Object.prototype\<close>), \<open>state.value[entityId]\<close> is \<open>undefined\<close>; spreading it is
  harmless, but reading its \<open>value\<close> raises.
\<close>

lemma updateEntity_absent:
  assumes "map_of c ''value'' = Some (JObj m)" and "k \<notin> fst ` set m"
  shows "updateEntity (JObj c) k update = Inl TypeError"
proof -
  from assms(2) have absent: "map_of m k = None"
    by (simp add: map_of_eq_None_iff)
  show ?thesis
    by (simp add: updateEntity_def andThen_def getProp_def assms(1) absent)
qed

text \<open>
  Claim C7 says that \<open>updateEntity(C, k, P)\<close> creates the entry when \<open>k\<close> is absent from \<open>C\<close>
  and does not fail. On the initial collection \<open>{value: {}, loading: false, error: false}\<close>,
  with \<open>k = "1"\<close> and \<open>P = {name: "A"}\<close>, the function raises a TypeError instead.
\<close>

theorem updateEntity_absent_throws:
  "updateEntity (JObj [(''value'', JObj []), (''loading'', JBool False), (''error'', JBool False)])
       ''1'' (JObj [(''name'', JStr ''A'')]) = Inl TypeError"
  by (simp add: updateEntity_def andThen_def getProp_def)

section \<open>Removing an entity\<close>

lemma removeEntity_result:
  assumes "removeEntity state k = Inr r"
  shows "\<exists>c sv. state = JObj c \<and> map_of c ''value'' = Some sv \<and> \<not> nullish sv
           \<and> r = JObj (AList.update ''value'' (JObj (AList.delete k (ownProps sv)))
                   (foldl (\<lambda>a (k, x). AList.update k x a) [] c))"
proof (cases state)
  case (JObj c)
  show ?thesis
  proof (cases "map_of c ''value''")
    case None
    with assms JObj show ?thesis
      by (simp add: removeEntity_def andThen_def getProp_def)
  next
    case (Some sv)
    with assms JObj show ?thesis
      by (simp add: removeEntity_def andThen_def getProp_def objLit_def split: if_splits)
  qed
next
  case (JStr s)
  with assms show ?thesis
    by (simp add: removeEntity_def andThen_def getProp_def string_has_no_value
        del: readProp.simps)
qed (use assms in \<open>simp_all add: removeEntity_def andThen_def getProp_def split: if_splits\<close>)

lemma removeEntity_again:
  assumes "removeEntity state k = Inr r"
  shows "removeEntity r k = Inr r"
proof -
  from removeEntity_result [OF assms] obtain c sv where
    r: "r = JObj (AList.update ''value'' (JObj (AList.delete k (ownProps sv)))
                   (foldl (\<lambda>a (k, x). AList.update k x a) [] c))"
    by blast
  define c' where "c' = foldl (\<lambda>a (k, x). AList.update k x a) [] c"
  define V where "V = JObj (AList.delete k (ownProps sv))"
  have d: "distinct (map fst (AList.update ''value'' V c'))"
    unfolding c'_def by (simp add: AList.distinct_update spread_keys_distinct)
  have copy: "foldl (\<lambda>a (k, x). AList.update k x a) [] (AList.update ''value'' V c')
                = AList.update ''value'' V c'"
    using spread_distinct [of "[]" "AList.update ''value'' V c'"] d by simp
  have V: "\<not> nullish V" "JObj (AList.delete k (ownProps V)) = V"
    by (simp_all add: V_def AList.delete_idem)
  have "removeEntity (JObj (AList.update ''value'' V c')) k
          = Inr (JObj (AList.update ''value'' V c'))"
    by (simp add: removeEntity_def andThen_def getProp_def objLit_def AList.update_conv'
        copy V)
  then show ?thesis by (simp add: r c'_def V_def)
qed

text \<open>
  Claim C8. For every collection \<open>C\<close> and id \<open>k\<close>, removing \<open>k\<close> twice gives what removing it
  once gives (also when the first removal raises, which the second then never reaches). And
  when \<open>k\<close> is not a key of the value mapping of a well-formed collection, \<open>removeEntity\<close>
  returns the collection as it was, without an error.
\<close>

theorem removeEntity_idempotent:
  "andThen (removeEntity C k) (\<lambda>r. removeEntity r k) = removeEntity C k
   \<and> (distinct (map fst c) \<and> map_of c ''value'' = Some (JObj m) \<and> k \<notin> fst ` set m
        \<longrightarrow> removeEntity (JObj c) k = Inr (JObj c))"
proof
  show "andThen (removeEntity C k) (\<lambda>r. removeEntity r k) = removeEntity C k"
  proof (cases "removeEntity C k")
    case (Inl e)
    then show ?thesis by (simp add: andThen_def)
  next
    case (Inr r)
    then show ?thesis by (simp add: andThen_def removeEntity_again)
  qed
next
  show "distinct (map fst c) \<and> map_of c ''value'' = Some (JObj m) \<and> k \<notin> fst ` set m
        \<longrightarrow> removeEntity (JObj c) k = Inr (JObj c)"
  proof
    assume h: "distinct (map fst c) \<and> map_of c ''value'' = Some (JObj m) \<and> k \<notin> fst ` set m"
    then have copy: "foldl (\<lambda>a (k, x). AList.update k x a) [] c = c"
      using spread_distinct [of "[]" c] by simp
    from h have "AList.update ''value'' (JObj m) c = c"
      by (simp add: AList.update_triv)
    with h show "removeEntity (JObj c) k = Inr (JObj c)"
      by (simp add: removeEntity_def andThen_def getProp_def objLit_def copy)
  qed
qed

theorem removeEntity_idempotent_witness:
  "distinct (map fst [(''value'', JObj [(''2'', JNull)]), (''loading'', JBool False)])
   \<and> map_of [(''value'', JObj [(''2'', JNull)]), (''loading'', JBool False)] ''value''
        = Some (JObj [(''2'', JNull)])
   \<and> ''1'' \<notin> fst ` set [(''2'', JNull)]
   \<and> removeEntity (JObj [(''value'', JObj [(''2'', JNull)]), (''loading'', JBool False)]) ''1''
        = Inr (JObj [(''value'', JObj [(''2'', JNull)]), (''loading'', JBool False)])
   \<and> andThen (removeEntity (JObj [(''value'', JObj [(''1'', JNull), (''2'', JNull)])]) ''1'')
         (\<lambda>r. removeEntity r ''1'')
        = Inr (JObj [(''value'', JObj [(''2'', JNull)])])"
  using removeEntity_idempotent
    [of "JObj [(''value'', JObj [(''1'', JNull), (''2'', JNull)])]" "''1''"
        "[(''value'', JObj [(''2'', JNull)]), (''loading'', JBool False)]" "[(''2'', JNull)]"]
  by (simp add: removeEntity_def andThen_def getProp_def objLit_def)

section \<open>Building a collection from a list\<close>

lemma find_snoc:
  "find P (xs @ [x]) = (case find P xs of None \<Rightarrow> (if P x then Some x else None) | Some y \<Rightarrow> Some y)"
  by (induction xs) simp_all

lemma updateCollection_reduce:
  assumes "\<forall>e \<in> set entities. \<not> nullish e" and "distinct (map fst a)"
  shows "\<exists>r. reduce (\<lambda>acc entity.
              andThen (getProp entity idKey) (\<lambda>idv.
                Inr (objLit [Spread acc,
                       Prop (String_of idv) (objLit [Prop ''value'' entity,
                         Prop ''loading'' (JBool False),
                         Prop ''error'' (JBool False)])])))
            (JObj a) entities = Inr (JObj r)
         \<and> distinct (map fst r)
         \<and> (\<forall>k. map_of r k =
               (case find (\<lambda>e. String_of (readProp e idKey) = k) (rev entities) of
                  None \<Rightarrow> map_of a k
                | Some e \<Rightarrow> Some (JObj [(''value'', e), (''loading'', JBool False),
                                         (''error'', JBool False)])))"
  using assms
proof (induction entities arbitrary: a)
  case Nil
  then show ?case by simp
next
  case (Cons e es)
  define a' where "a' = AList.update (String_of (readProp e idKey))
      (JObj [(''value'', e), (''loading'', JBool False), (''error'', JBool False)]) a"
  from Cons.prems(2) have copy: "foldl (\<lambda>a (k, x). AList.update k x a) [] a = a"
    using spread_distinct [of "[]" a] by simp
  from Cons.prems(1) have e: "\<not> nullish e" by simp
  have d: "distinct (map fst a')"
    unfolding a'_def using Cons.prems(2) by (simp add: AList.distinct_update)
  from Cons.prems(1) have "\<forall>e \<in> set es. \<not> nullish e" by simp
  from Cons.IH [OF this d] obtain r where r:
    "reduce (\<lambda>acc entity.
              andThen (getProp entity idKey) (\<lambda>idv.
                Inr (objLit [Spread acc,
                       Prop (String_of idv) (objLit [Prop ''value'' entity,
                         Prop ''loading'' (JBool False),
                         Prop ''error'' (JBool False)])])))
            (JObj a') es = Inr (JObj r)"
    "distinct (map fst r)"
    "\<forall>k. map_of r k =
               (case find (\<lambda>e. String_of (readProp e idKey) = k) (rev es) of
                  None \<Rightarrow> map_of a' k
                | Some e \<Rightarrow> Some (JObj [(''value'', e), (''loading'', JBool False),
                                         (''error'', JBool False)]))"
    by blast
  have step: "andThen (getProp e idKey) (\<lambda>idv.
                Inr (objLit [Spread (JObj a),
                       Prop (String_of idv) (objLit [Prop ''value'' e,
                         Prop ''loading'' (JBool False),
                         Prop ''error'' (JBool False)])])) = Inr (JObj a')"
    using e by (simp add: andThen_def getProp_def objLit_def copy a'_def)
  have "\<forall>k. map_of r k =
               (case find (\<lambda>e. String_of (readProp e idKey) = k) (rev (e # es)) of
                  None \<Rightarrow> map_of a k
                | Some e \<Rightarrow> Some (JObj [(''value'', e), (''loading'', JBool False),
                                         (''error'', JBool False)]))"
    using r(3) by (simp add: find_snoc a'_def AList.update_conv' split: option.splits)
  with r(1,2) step show ?case by simp
qed

text \<open>
  Claim C9 says that every entry \<open>fromList\<close> builds has \<open>loading\<close> equal to \<open>false\<close> and
  \<open>error\<close> equal to \<open>undefined\<close>. For the one-item list \<open>[{id: 1}]\<close>, \<open>updateCollection\<close>
  builds the entry \<open>"1"\<close> with \<open>error\<close> equal to \<open>false\<close>.
\<close>

theorem updateCollection_error_false:
  "updateCollection [JObj [(''id'', JNum 1)]] ''id''
     = Inr (JObj [(''1'', JObj [(''value'', JObj [(''id'', JNum 1)]),
                               (''loading'', JBool False), (''error'', JBool False)])])"
  by (simp add: updateCollection_def andThen_def getProp_def objLit_def showInt_def
      showNat.simps)

text \<open>
  Claim C9, amended. For every list of entities none of which is \<open>null\<close> or \<open>undefined\<close>,
  and every id key, \<open>updateCollection\<close> builds a well-formed mapping; its keys are the id-key
  fields of the items, converted to strings, and the entry under a key is
  \<open>{value: item, loading: false, error: false}\<close> for the last item of the list with that
  key.
\<close>

theorem updateCollection_entries:
  assumes "\<forall>e \<in> set entities. \<not> nullish e"
  shows "\<exists>r. updateCollection entities idKey = Inr (JObj r)
         \<and> distinct (map fst r)
         \<and> (\<forall>k. map_of r k =
               (case find (\<lambda>e. String_of (readProp e idKey) = k) (rev entities) of
                  None \<Rightarrow> None
                | Some e \<Rightarrow> Some (JObj [(''value'', e), (''loading'', JBool False),
                                         (''error'', JBool False)])))"
  using updateCollection_reduce [OF assms, of "[]" idKey]
  by (simp add: updateCollection_def objLit_def [of "[]"] cong: option.case_cong)

theorem updateCollection_entries_witness:
  "\<not> nullish (JObj [(''id'', JStr ''x'')]) \<and> \<not> nullish (JObj [(''id'', JStr ''y'')])
   \<and> (\<exists>r. updateCollection [JObj [(''id'', JStr ''x'')], JObj [(''id'', JStr ''y'')]] ''id''
             = Inr (JObj r)
         \<and> distinct (map fst r)
         \<and> map_of r ''y'' = Some (JObj [(''value'', JObj [(''id'', JStr ''y'')]),
                (''loading'', JBool False), (''error'', JBool False)])
         \<and> map_of r ''z'' = None)"
proof -
  have h: "\<forall>e \<in> set [JObj [(''id'', JStr ''x'')], JObj [(''id'', JStr ''y'')]]. \<not> nullish e"
    by simp
  from updateCollection_entries [OF h, of "''id''"] obtain r where
    r: "updateCollection [JObj [(''id'', JStr ''x'')], JObj [(''id'', JStr ''y'')]] ''id''
             = Inr (JObj r)" "distinct (map fst r)"
      "\<forall>k. map_of r k =
               (case find (\<lambda>e. String_of (readProp e ''id'') = k)
                       (rev [JObj [(''id'', JStr ''x'')], JObj [(''id'', JStr ''y'')]]) of
                  None \<Rightarrow> None
                | Some e \<Rightarrow> Some (JObj [(''value'', e), (''loading'', JBool False),
                                         (''error'', JBool False)]))"
    by blast
  from r(3) have "map_of r ''y'' = Some (JObj [(''value'', JObj [(''id'', JStr ''y'')]),
                (''loading'', JBool False), (''error'', JBool False)])"
    and "map_of r ''z'' = None"
    by simp_all
  with r(1,2) show ?thesis by auto
qed

section \<open>Marking an absent entity as loading\<close>

text \<open>
  Claim C10. For every collection \<open>C\<close> whose value mapping does not contain \<open>k\<close>,
  \<open>setEntityLoading(C, k)\<close> returns a collection whose entry for \<open>k\<close> is exactly
  \<open>{loading: true, error: false}\<close>: it has no \<open>value\<close> field, and \<open>selectEntity(k)\<close> reads
  \<open>undefined\<close> from the result.
\<close>

theorem setEntityLoading_absent:
  assumes "map_of c ''value'' = Some (JObj m)" and "k \<notin> fst ` set m"
  shows "\<exists>r. setEntityLoading (JObj c) k = Inr r
           \<and> readProp (readProp r ''value'') k
               = JObj [(''loading'', JBool True), (''error'', JBool False)]
           \<and> selectEntity k r = JUndefined"
proof -
  from assms(2) have absent: "map_of m k = None"
    by (simp add: map_of_eq_None_iff)
  show ?thesis
    by (simp add: setEntityLoading_def andThen_def getProp_def optProp_def selectEntity_def
        objLit_def assms(1) absent AList.update_conv')
qed

theorem setEntityLoading_absent_witness:
  "\<exists>r. setEntityLoading (JObj [(''value'', JObj []), (''loading'', JBool False)]) ''7'' = Inr r
           \<and> readProp (readProp r ''value'') ''7''
               = JObj [(''loading'', JBool True), (''error'', JBool False)]
           \<and> selectEntity ''7'' r = JUndefined"
  using setEntityLoading_absent [of "[(''value'', JObj []), (''loading'', JBool False)]" "[]" "''7''"]
  by simp

end
